theory Spec2Isabelle
  imports Complex_Main
begin

section \<open>SangerSearch: the search and coordinate-mapping core of sangersearch_gui.py\<close>

text \<open>
  The development embeds the three module-level functions of the program
  (\<open>find_ab1_files\<close>, \<open>search_sequence\<close>, \<open>plot_trace_section\<close>) and the search loop of
  \<open>SequenceFinderWindow.perform_search\<close>.

  Conventions of the embedding.
  \<^item> A Python \<open>str\<close> is a \<open>string\<close>. The base calls of an ABI trace and the file-name
    suffix the program looks at are ASCII, and the case conversions below are the ASCII ones:
    a character outside \<open>a\<close>..\<open>z\<close> (resp. \<open>A\<close>..\<open>Z\<close>) is left unchanged.
  \<^item> A Python \<open>int\<close> is an \<open>int\<close>; \<open>len\<close> is \<open>length\<close>.
  \<^item> The library calls the program makes (\<open>str.find\<close>, \<open>str.upper\<close>, \<open>str.lower\<close>,
    \<open>str.endswith\<close>, \<open>os.path.join\<close>, \<open>os.walk\<close>, \<open>Seq.reverse_complement\<close>) are
    written out as functions that compute what the library documents.
  \<^item> \<open>SeqIO.read\<close> and the file system are not part of the program: the reader is a parameter
    that returns either the message of the exception it raised or the decoded record, and the
    file system is a parameter that says what is found at a path.
\<close>

subsection \<open>Strings\<close>

definition upper_char :: "char \<Rightarrow> char" where
  "upper_char c =
     (case map_of (zip ''abcdefghijklmnopqrstuvwxyz'' ''ABCDEFGHIJKLMNOPQRSTUVWXYZ'') c of
        Some u \<Rightarrow> u
      | None \<Rightarrow> c)"

definition lower_char :: "char \<Rightarrow> char" where
  "lower_char c =
     (case map_of (zip ''ABCDEFGHIJKLMNOPQRSTUVWXYZ'' ''abcdefghijklmnopqrstuvwxyz'') c of
        Some l \<Rightarrow> l
      | None \<Rightarrow> c)"

definition upper :: "string \<Rightarrow> string" where
  "upper s = map upper_char s"

definition lower :: "string \<Rightarrow> string" where
  "lower s = map lower_char s"

text \<open>\<open>s.startswith(p)\<close> and \<open>s.endswith(p)\<close>.\<close>

definition startswith :: "'a list \<Rightarrow> 'a list \<Rightarrow> bool" where
  "startswith s p \<longleftrightarrow> take (length p) s = p"

definition endswith :: "'a list \<Rightarrow> 'a list \<Rightarrow> bool" where
  "endswith s p \<longleftrightarrow> length p \<le> length s \<and> drop (length s - length p) s = p"

text \<open>
  \<open>s.find(sub)\<close>: the lowest index at which \<open>sub\<close> starts in \<open>s\<close>, or \<open>-1\<close>. The scan
  tries every start position from the left, the position after the last character included
  (where only the empty string is found).
\<close>

fun find_from :: "'a list \<Rightarrow> 'a list \<Rightarrow> nat \<Rightarrow> int" where
  "find_from [] sub i = (if sub = [] then int i else - 1)"
| "find_from (c # cs) sub i =
     (if startswith (c # cs) sub then int i else find_from cs sub (Suc i))"

definition find :: "'a list \<Rightarrow> 'a list \<Rightarrow> int" where
  "find s sub = find_from s sub 0"

text \<open>
  \<open>occurs_at s sub i\<close>: \<open>sub\<close> is the contiguous block of \<open>s\<close> that starts at index \<open>i\<close>.
  This is the notion the statements about the matcher are phrased in; it does not mention
  the scan.
\<close>

definition occurs_at :: "'a list \<Rightarrow> 'a list \<Rightarrow> nat \<Rightarrow> bool" where
  "occurs_at s sub i \<longleftrightarrow> i + length sub \<le> length s \<and> take (length sub) (drop i s) = sub"

definition leftmost_at :: "'a list \<Rightarrow> 'a list \<Rightarrow> nat \<Rightarrow> bool" where
  "leftmost_at s sub i \<longleftrightarrow> occurs_at s sub i \<and> (\<forall>j < i. \<not> occurs_at s sub j)"

definition contains :: "'a list \<Rightarrow> 'a list \<Rightarrow> bool" where
  "contains s sub \<longleftrightarrow> list_ex (occurs_at s sub) [0 ..< Suc (length s)]"

subsection \<open>Reverse complement\<close>

text \<open>
  Modelled from the spec: \<open>Bio.Seq.Seq.reverse_complement\<close> belongs to Biopython and is not
  in the repository. The spec gives the standard DNA complement \<open>A\<leftrightarrow>T\<close>, \<open>C\<leftrightarrow>G\<close> and
  leaves every other symbol to pass-through behaviour, which is what is written here
  (Biopython itself also maps the IUPAC ambiguity codes among themselves). The statements
  about the matcher are proved without looking at the table, and the involution is stated
  for strings over A, C, G, T only. The program complements the upper-cased query.
\<close>

definition complement_char :: "char \<Rightarrow> char" where
  "complement_char c =
     (if c = CHR ''A'' then CHR ''T''
      else if c = CHR ''T'' then CHR ''A''
      else if c = CHR ''C'' then CHR ''G''
      else if c = CHR ''G'' then CHR ''C''
      else c)"

definition reverse_complement :: "string \<Rightarrow> string" where
  "reverse_complement s = rev (map complement_char s)"

subsection \<open>The trace reader\<close>

text \<open>
  What \<open>SeqIO.read(ab1_file, "abi")\<close> gives the program: the called bases (\<open>record.seq\<close>) and
  the raw ABIF entries (\<open>record.annotations['abif_raw']\<close>), a dictionary from entry names to
  sample tuples. A reader maps a path to \<open>Inl msg\<close> when decoding raises an exception whose
  text is \<open>msg\<close>, and to \<open>Inr record\<close> otherwise.
\<close>

record abi_record =
  seq :: string
  abif_raw :: "string \<rightharpoonup> int list"

type_synonym reader = "string \<Rightarrow> string + abi_record"

subsection \<open>search_sequence\<close>

text \<open>
  The result of \<open>search_sequence\<close> is the triple \<open>(found, orientation, position)\<close> of the
  source, \<open>None\<close> being Python's \<open>None\<close>. \<open>match_sequence\<close> is the body of the \<open>try\<close> block
  after the file has been read (lines 31 to 45).
\<close>

type_synonym search_result = "bool \<times> string option \<times> int option"

definition match_sequence :: "string \<Rightarrow> string \<Rightarrow> search_result" where
  "match_sequence sequence0 search_seq0 =
     (let search_seq = upper search_seq0;
          sequence = upper sequence0;
          rev_comp = reverse_complement search_seq;
          forward_pos = find sequence search_seq;
          reverse_pos = find sequence rev_comp
      in if forward_pos \<noteq> - 1 then (True, Some ''forward'', Some forward_pos)
         else if reverse_pos \<noteq> - 1 then (True, Some ''reverse complement'', Some reverse_pos)
         else (False, None, None))"

text \<open>
  \<open>search_sequence\<close> returns its triple together with the lines it printed. The \<open>except\<close>
  clause catches every exception of the \<open>try\<close> block, prints one line and returns the
  no-match triple.
\<close>

definition search_sequence :: "reader \<Rightarrow> string \<Rightarrow> string \<Rightarrow> search_result \<times> string list" where
  "search_sequence read_abi ab1_file search_seq =
     (case read_abi ab1_file of
        Inr record \<Rightarrow> (match_sequence (seq record) search_seq, [])
      | Inl e \<Rightarrow> ((False, None, None), [''Error reading '' @ ab1_file @ '': '' @ e]))"

subsection \<open>The file system and find_ab1_files\<close>

text \<open>
  What \<open>os.walk\<close> can see of a directory tree. \<open>File\<close> is any entry for which
  \<open>entry.is_dir()\<close> is false. \<open>Dir es\<close> is a directory with the entries \<open>os.scandir\<close>
  lists, in that order. \<open>Unreadable\<close> is a directory entry whose listing raises
  \<open>OSError\<close> (no permission), so that nothing below it is visible. Symbolic links to
  directories, which \<open>os.walk\<close> reports but does not enter, are not modelled.
  A file system says which node, if any, is found at a path.
\<close>

datatype node = File | Dir "(string \<times> node) list" | Unreadable

type_synonym filesystem = "string \<Rightarrow> node option"

datatype os_error = FileNotFoundError | NotADirectoryError | PermissionError

definition scandir :: "node option \<Rightarrow> os_error + (string \<times> node) list" where
  "scandir n =
     (case n of
        None \<Rightarrow> Inl FileNotFoundError
      | Some File \<Rightarrow> Inl NotADirectoryError
      | Some Unreadable \<Rightarrow> Inl PermissionError
      | Some (Dir es) \<Rightarrow> Inr es)"

definition is_dir :: "node \<Rightarrow> bool" where
  "is_dir n = (case n of File \<Rightarrow> False | Dir es \<Rightarrow> True | Unreadable \<Rightarrow> True)"

text \<open>\<open>os.path.join(a, b)\<close> of \<open>posixpath\<close>, for two components.\<close>

definition os_path_join :: "string \<Rightarrow> string \<Rightarrow> string" where
  "os_path_join a b =
     (if startswith b ''/'' then b
      else if a = [] \<or> endswith a ''/'' then a @ b
      else a @ ''/'' @ b)"

text \<open>
  \<open>os.walk(dirpath)\<close> with its defaults (top-down, \<open>onerror=None\<close>): the triples
  \<open>(dirpath, dirs, files)\<close> in the order they are yielded. A directory that cannot be listed
  yields nothing: the \<open>OSError\<close> of \<open>scandir\<close> is passed to \<open>onerror\<close>, which is absent,
  and the walk goes on (lemmas \<open>os_walk_scandir\<close> and \<open>walk_scandir_error\<close> state the
  function in these terms).
\<close>

fun os_walk :: "string \<Rightarrow> node \<Rightarrow> (string \<times> string list \<times> string list) list" where
  "os_walk dirpath (Dir es) =
     (dirpath, map fst (filter (\<lambda>(name, n). is_dir n) es),
           map fst (filter (\<lambda>(name, n). \<not> is_dir n) es))
     # concat (map (\<lambda>(name, n). os_walk (os_path_join dirpath name) n)
                   (filter (\<lambda>(name, n). is_dir n) es))"
| "os_walk dirpath File = []"
| "os_walk dirpath Unreadable = []"

definition walk :: "filesystem \<Rightarrow> string \<Rightarrow> (string \<times> string list \<times> string list) list" where
  "walk fs dirpath = (case fs dirpath of None \<Rightarrow> [] | Some n \<Rightarrow> os_walk dirpath n)"

text \<open>
  \<open>ab1_paths\<close> is the pair of nested \<open>for\<close> loops of lines 18 to 21 over the triples of
  the walk. \<open>find_ab1_files\<close> has no \<open>raise\<close> and calls nothing that raises, so every
  call returns (\<open>Inr\<close>) the list it built.
\<close>

definition ab1_paths :: "(string \<times> string list \<times> string list) list \<Rightarrow> string list" where
  "ab1_paths triples =
     concat (map (\<lambda>(dirpath, dirs, files).
                    map (os_path_join dirpath)
                        (filter (\<lambda>file. endswith (lower file) ''.ab1'') files))
                 triples)"

definition find_ab1_files :: "filesystem \<Rightarrow> string \<Rightarrow> os_error + string list" where
  "find_ab1_files fs start_path = Inr (ab1_paths (walk fs start_path))"

text \<open>
  The trace files below a node, said without the walk: \<open>file_below dirpath n p name\<close> holds when
  \<open>p\<close> is the path of a file called \<open>name\<close> somewhere in the tree \<open>n\<close> found at \<open>dirpath\<close>.
\<close>

inductive file_below :: "string \<Rightarrow> node \<Rightarrow> string \<Rightarrow> string \<Rightarrow> bool" where
  here: "(name, File) \<in> set es \<Longrightarrow> file_below dirpath (Dir es) (os_path_join dirpath name) name"
| deeper: "(d, n) \<in> set es \<Longrightarrow> file_below (os_path_join dirpath d) n p name \<Longrightarrow>
           file_below dirpath (Dir es) p name"

text \<open>A name ends in the extension \<open>.ab1\<close>, letter case ignored.\<close>

definition has_ab1_extension :: "string \<Rightarrow> bool" where
  "has_ab1_extension name \<longleftrightarrow> (\<exists>stem ext. name = stem @ ext \<and> lower ext = ''.ab1'')"

text \<open>
  The tree \<open>n\<close> with every unreadable directory taken out of the listing of its parent, at
  any depth. It serves to say what skipping such a directory means.
\<close>

fun without_unreadable :: "node \<Rightarrow> node" where
  "without_unreadable (Dir es) =
     Dir (map (\<lambda>(name, n). (name, without_unreadable n))
              (filter (\<lambda>(name, n). n \<noteq> Unreadable) es))"
| "without_unreadable File = File"
| "without_unreadable Unreadable = Unreadable"

subsection \<open>plot_trace_section\<close>

datatype py_error = ReadError string | KeyError | ZeroDivisionError | ValueError

text \<open>\<open>int(x)\<close> of a float: truncation towards zero.\<close>

definition py_int :: "real \<Rightarrow> int" where
  "py_int x = (if 0 \<le> x then \<lfloor>x\<rfloor> else \<lceil>x\<rceil>)"

text \<open>\<open>xs[i:j]\<close>: a negative index counts from the end, and both are cut to the list.\<close>

definition py_slice :: "'a list \<Rightarrow> int \<Rightarrow> int \<Rightarrow> 'a list" where
  "py_slice xs i j =
     (let n = int (length xs);
          a = (if i < 0 then max 0 (i + n) else min i n);
          b = (if j < 0 then max 0 (j + n) else min j n)
      in take (nat (b - a)) (drop (nat a) xs))"

definition padding :: int where
  "padding = 20"

text \<open>
  Lines 63 to 69: the sample window of a match. \<open>len_trace\<close> is \<open>len(traces[0])\<close> and
  \<open>len_seq\<close> is \<open>len(record.seq)\<close>, which is not zero here (the division of line 63 comes
  first in \<open>plot_trace_section\<close>). The quotient and the two products are floats in the source
  and exact reals here.
\<close>

definition sample_window :: "nat \<Rightarrow> nat \<Rightarrow> int \<Rightarrow> int \<Rightarrow> int \<times> int" where
  "sample_window len_trace len_seq match_position sequence_length =
     (let bases_per_point = real len_trace / real len_seq;
          start_point = py_int (real_of_int (match_position - padding) * bases_per_point);
          end_point =
            py_int (real_of_int (match_position + sequence_length + padding) * bases_per_point)
      in (max 0 start_point, min (int len_trace) end_point))"

text \<open>
  What \<open>plot_trace_section\<close> puts into the figure: the four slices it plots, the span it
  highlights, \<open>max_height\<close>, and the base letters it writes, each with its position and
  whether it is written in purple. The x coordinates of the curves (\<open>np.linspace\<close>), the
  colours and the title are left to the plotting library.
\<close>

record figure =
  plotted :: "int list list"
  axvspan :: "int \<times> int"
  max_height :: int
  texts :: "(int \<times> char \<times> bool) list"

definition base_texts :: "string \<Rightarrow> int \<Rightarrow> int \<Rightarrow> (int \<times> char \<times> bool) list" where
  "base_texts s match_position sequence_length =
     map (\<lambda>i. let base = s ! nat i in (i, base, base \<notin> set ''ACGT''))
         (filter (\<lambda>i. 0 \<le> i \<and> i < int (length s))
                 [match_position - padding ..
                  match_position + sequence_length + padding - 1])"

text \<open>
  The exceptions of \<open>plot_trace_section\<close>, in the order the source reaches them: the reader's
  own; \<open>KeyError\<close> for a missing channel; \<open>ZeroDivisionError\<close> at line 63;
  \<open>ValueError\<close> from \<open>np.linspace\<close> for a negative number of points, from \<open>ax.plot\<close> for a
  slice whose length is not that number, and from \<open>max\<close> at line 88 for an empty slice.
\<close>

definition plot_trace_section ::
  "reader \<Rightarrow> string \<Rightarrow> int \<Rightarrow> int \<Rightarrow> string \<Rightarrow> string \<Rightarrow> py_error + figure" where
  "plot_trace_section read_abi ab1_file match_position sequence_length orientation search_seq =
     (case read_abi ab1_file of
        Inl e \<Rightarrow> Inl (ReadError e)
      | Inr record \<Rightarrow>
          (case (abif_raw record ''DATA9'', abif_raw record ''DATA10'',
                 abif_raw record ''DATA11'', abif_raw record ''DATA12'') of
             (Some a, Some c, Some g, Some t) \<Rightarrow>
               (let traces = [a, c, g, t] in
                if length (seq record) = 0 then Inl ZeroDivisionError
                else
                  (let (start_point, end_point) =
                         sample_window (length (traces ! 0)) (length (seq record))
                           match_position sequence_length;
                       slices = map (\<lambda>trace. py_slice trace start_point end_point) traces
                   in if end_point - start_point < 0 then Inl ValueError
                      else if list_ex (\<lambda>sl. int (length sl) \<noteq> end_point - start_point) slices
                        then Inl ValueError
                      else if list_ex (\<lambda>sl. sl = []) slices then Inl ValueError
                      else Inr \<lparr> plotted = slices,
                                 axvspan = (match_position, match_position + sequence_length),
                                 max_height = Max (set (map (\<lambda>sl. Max (set sl)) slices)),
                                 texts = base_texts (seq record) match_position sequence_length \<rparr>))
           | _ \<Rightarrow> Inl KeyError))"

subsection \<open>The search of perform_search\<close>

datatype status =
    NoStatus
  | SelectDirectoryFirst
  | EnterSequence
  | Searching
  | FoundInFiles nat
  | NotFoundInAnyFiles






subsection \<open>Example data\<close>

text \<open>A small decoded trace, two samples per base, with one ambiguous base call.\<close>

definition example_trace :: "int list" where
  "example_trace = [1, 2, 3, 4, 5, 6, 7, 8]"

definition example_record :: abi_record where
  "example_record =
     \<lparr> seq = ''ANGT'',
       abif_raw = [''DATA9'' \<mapsto> example_trace, ''DATA10'' \<mapsto> example_trace,
                   ''DATA11'' \<mapsto> example_trace, ''DATA12'' \<mapsto> example_trace] \<rparr>"

definition example_reader :: reader where
  "example_reader file =
     (if file = ''/data/run1.ab1'' then Inr example_record
      else if file = ''/data/sub/run2.Ab1'' then Inr (example_record\<lparr>seq := ''ccacgtaa''\<rparr>)
      else if file = ''/data/empty.ab1'' then Inr (example_record\<lparr>seq := []\<rparr>)
      else Inl ''File is empty'')"

text \<open>
  A directory with a trace file, a trace file that cannot be decoded, a text file, a
  subdirectory that cannot be listed, and a subdirectory that holds a trace file and a file
  that is none.
\<close>

definition example_tree :: node where
  "example_tree =
     Dir [(''run1.ab1'', File), (''bad.AB1'', File), (''notes.txt'', File),
          (''locked'', Unreadable),
          (''sub'', Dir [(''run2.Ab1'', File), (''ab1'', File)])]"

definition example_fs :: filesystem where
  "example_fs path =
     (if path = ''/data'' then Some example_tree
      else if path = ''/data/notes.txt'' then Some File
      else None)"


section \<open>Properties\<close>

subsection \<open>The scan of \<open>find\<close> against \<open>occurs_at\<close>\<close>

lemma startswith_occurs_at: "startswith s sub \<longleftrightarrow> occurs_at s sub 0"
proof -
  have "length sub \<le> length s" if "take (length sub) s = sub"
  proof -
    from that have "length (take (length sub) s) = length sub"
      by simp
    then show ?thesis
      by simp
  qed
  then show ?thesis
    by (auto simp: startswith_def occurs_at_def)
qed

lemma occurs_at_Nil: "occurs_at [] sub i \<longleftrightarrow> sub = [] \<and> i = 0"
  by (auto simp: occurs_at_def)

lemma occurs_at_Cons_Suc: "occurs_at (c # cs) sub (Suc i) \<longleftrightarrow> occurs_at cs sub i"
  by (simp add: occurs_at_def)

lemma occurs_at_decompose:
  "occurs_at s sub i \<longleftrightarrow> (\<exists>pre post. s = pre @ sub @ post \<and> length pre = i)"
proof
  assume h: "occurs_at s sub i"
  then have "s = take i s @ sub @ drop (length sub) (drop i s)"
    by (metis append_take_drop_id occurs_at_def)
  moreover from h have "length (take i s) = i"
    by (simp add: occurs_at_def)
  ultimately show "\<exists>pre post. s = pre @ sub @ post \<and> length pre = i"
    by blast
next
  assume "\<exists>pre post. s = pre @ sub @ post \<and> length pre = i"
  then show "occurs_at s sub i"
    by (auto simp: occurs_at_def)
qed

lemma find_from_leftmost:
  "leftmost_at s sub i \<Longrightarrow> find_from s sub k = int (k + i)"
proof (induction s arbitrary: i k)
  case Nil
  then show ?case
    by (simp add: leftmost_at_def occurs_at_Nil)
next
  case (Cons c cs)
  show ?case
  proof (cases i)
    case 0
    with Cons.prems show ?thesis
      by (simp add: leftmost_at_def startswith_occurs_at)
  next
    case (Suc j)
    with Cons.prems have "\<not> occurs_at (c # cs) sub 0"
      by (simp add: leftmost_at_def)
    moreover from Cons.prems Suc have "leftmost_at cs sub j"
      unfolding leftmost_at_def using occurs_at_Cons_Suc by (metis Suc_less_eq)
    ultimately show ?thesis
      using Cons.IH [of j "Suc k"] Suc by (simp add: startswith_occurs_at)
  qed
qed

lemma find_from_absent:
  "(\<forall>i. \<not> occurs_at s sub i) \<Longrightarrow> find_from s sub k = - 1"
proof (induction s arbitrary: k)
  case Nil
  then show ?case
    by (auto simp: occurs_at_Nil)
next
  case (Cons c cs)
  then have "\<forall>i. \<not> occurs_at cs sub i"
    using occurs_at_Cons_Suc by metis
  with Cons show ?case
    by (simp add: startswith_occurs_at)
qed

lemma find_leftmost: "leftmost_at s sub i \<Longrightarrow> find s sub = int i"
  using find_from_leftmost [of s sub i 0] by (simp add: find_def)

lemma contains_occurs: "contains s sub \<longleftrightarrow> (\<exists>i. occurs_at s sub i)"
proof -
  have "occurs_at s sub i \<Longrightarrow> i \<in> set [0 ..< Suc (length s)]" for i
    by (auto simp: occurs_at_def)
  then show ?thesis
    unfolding contains_def list_ex_iff by blast
qed

lemma find_absent: "\<not> contains s sub \<Longrightarrow> find s sub = - 1"
  using find_from_absent [of s sub 0] by (simp add: find_def contains_occurs)

subsection \<open>The matcher\<close>

text \<open>
  C1. Let the upper-cased query occur in the upper-cased sequence, its leftmost occurrence
  starting at index \<open>i\<close>. Then the matcher answers \<open>(True, "forward", i)\<close>. Nothing is
  assumed about the reverse complement, so the answer is the same when it occurs as well.
\<close>

theorem forward_match_leftmost:
  "leftmost_at (upper S) (upper Q) i \<Longrightarrow>
     match_sequence S Q = (True, Some ''forward'', Some (int i))"
  by (simp add: match_sequence_def Let_def find_leftmost)

theorem forward_match_leftmost_witness:
  "leftmost_at (upper ''ggttAACCaacc'') (upper ''aacc'') 4
   \<and> contains (upper ''ggttAACCaacc'') (reverse_complement (upper ''aacc''))
   \<and> match_sequence ''ggttAACCaacc'' ''aacc'' = (True, Some ''forward'', Some 4)"
proof -
  have h: "leftmost_at (upper ''ggttAACCaacc'') (upper ''aacc'') 4"
    unfolding leftmost_at_def
    by (simp add: occurs_at_def upper_def upper_char_def All_less_Suc numeral_eq_Suc)
  have "contains (upper ''ggttAACCaacc'') (reverse_complement (upper ''aacc''))"
    by code_simp
  with h forward_match_leftmost [OF h] show ?thesis
    by simp
qed

text \<open>
  C2. If the upper-cased sequence does not contain the upper-cased query but contains its
  reverse complement, leftmost at index \<open>j\<close>, the matcher answers
  \<open>(True, "reverse complement", j)\<close>; if it contains neither, the matcher answers
  \<open>(False, None, None)\<close>.
\<close>

theorem reverse_match_or_none:
  "(\<not> contains (upper S) (upper Q) \<and> leftmost_at (upper S) (reverse_complement (upper Q)) j
      \<longrightarrow> match_sequence S Q = (True, Some ''reverse complement'', Some (int j)))
   \<and> (\<not> contains (upper S) (upper Q) \<and> \<not> contains (upper S) (reverse_complement (upper Q))
      \<longrightarrow> match_sequence S Q = (False, None, None))"
  by (auto simp: match_sequence_def Let_def find_leftmost find_absent)

theorem reverse_match_or_none_witness:
  "\<not> contains (upper ''TTTGGTTACGT'') (upper ''aacc'')
   \<and> leftmost_at (upper ''TTTGGTTACGT'') (reverse_complement (upper ''aacc'')) 3
   \<and> match_sequence ''TTTGGTTACGT'' ''aacc'' = (True, Some ''reverse complement'', Some 3)
   \<and> \<not> contains (upper ''ACGTACGT'') (upper ''aaaa'')
   \<and> \<not> contains (upper ''ACGTACGT'') (reverse_complement (upper ''aaaa''))
   \<and> match_sequence ''ACGTACGT'' ''aaaa'' = (False, None, None)"
proof -
  have a: "\<not> contains (upper ''TTTGGTTACGT'') (upper ''aacc'')"
    by code_simp
  have b: "leftmost_at (upper ''TTTGGTTACGT'') (reverse_complement (upper ''aacc'')) 3"
    unfolding leftmost_at_def
    by (simp add: occurs_at_def upper_def upper_char_def reverse_complement_def
        complement_char_def All_less_Suc numeral_eq_Suc)
  have c: "\<not> contains (upper ''ACGTACGT'') (upper ''aaaa'')"
    by code_simp
  have d: "\<not> contains (upper ''ACGTACGT'') (reverse_complement (upper ''aaaa''))"
    by code_simp
  from a b c d
    reverse_match_or_none [of "''TTTGGTTACGT''" "''aacc''" 3]
    reverse_match_or_none [of "''ACGTACGT''" "''aaaa''" 0]
  show ?thesis
    by simp
qed

text \<open>
  C9. On strings over the letters A, C, G and T, taking the reverse complement twice gives
  the string back.
\<close>

theorem reverse_complement_involution:
  "set Q \<subseteq> {CHR ''A'', CHR ''C'', CHR ''G'', CHR ''T''} \<Longrightarrow>
     reverse_complement (reverse_complement Q) = Q"
  by (induction Q) (auto simp: reverse_complement_def complement_char_def)

theorem reverse_complement_involution_witness:
  "set ''AACGT'' \<subseteq> {CHR ''A'', CHR ''C'', CHR ''G'', CHR ''T''}
   \<and> reverse_complement ''AACGT'' = ''ACGTT''
   \<and> reverse_complement (reverse_complement ''AACGT'') = ''AACGT''"
proof -
  have h: "set ''AACGT'' \<subseteq> {CHR ''A'', CHR ''C'', CHR ''G'', CHR ''T''}"
    by simp
  have "reverse_complement ''AACGT'' = ''ACGTT''"
    by (simp add: reverse_complement_def complement_char_def)
  with h reverse_complement_involution [OF h] show ?thesis
    by simp
qed

subsection \<open>search_sequence on a file that cannot be decoded\<close>

text \<open>
  C10. \<open>search_sequence\<close> returns a triple on every input. When the reader raises on the
  file, the triple is \<open>(False, None, None)\<close>, which is also the triple of any file that is
  decoded and holds neither the query nor its reverse complement.
\<close>

theorem search_sequence_decode_failure:
  "read_abi ab1_file = Inl e \<Longrightarrow>
     fst (search_sequence read_abi ab1_file q) = (False, None, None)
     \<and> (\<forall>read_abi' r.
           read_abi' ab1_file = Inr r
           \<and> \<not> contains (upper (seq r)) (upper q)
           \<and> \<not> contains (upper (seq r)) (reverse_complement (upper q))
           \<longrightarrow> fst (search_sequence read_abi' ab1_file q)
                = fst (search_sequence read_abi ab1_file q))"
  by (simp add: search_sequence_def match_sequence_def Let_def find_absent)

theorem search_sequence_decode_failure_witness:
  "(\<lambda>f. Inl ''File is empty'' :: string + abi_record) ''run1.ab1'' = Inl ''File is empty''
   \<and> search_sequence (\<lambda>f. Inl ''File is empty'') ''run1.ab1'' ''acgt''
       = ((False, None, None), [''Error reading run1.ab1: File is empty''])
   \<and> fst (search_sequence (\<lambda>f. Inr \<lparr>seq = ''TTTTNTTT'', abif_raw = Map.empty\<rparr>)
             ''run1.ab1'' ''acgg'')
       = fst (search_sequence (\<lambda>f. Inl ''File is empty'') ''run1.ab1'' ''acgg'')"
proof -
  have a: "\<not> contains (upper ''TTTTNTTT'') (upper ''acgg'')"
    by code_simp
  have b: "\<not> contains (upper ''TTTTNTTT'') (reverse_complement (upper ''acgg''))"
    by code_simp
  have c: "search_sequence (\<lambda>f. Inl ''File is empty'') ''run1.ab1'' ''acgt''
       = ((False, None, None), [''Error reading run1.ab1: File is empty''])"
    by (simp add: search_sequence_def)
  from a b c
    search_sequence_decode_failure
      [of "\<lambda>f. Inl ''File is empty''" "''run1.ab1''" "''File is empty''" "''acgg''"]
  show ?thesis
    by simp
qed

subsection \<open>The sample window\<close>






subsection \<open>The figure\<close>

lemma base_texts_iff:
  "(i, c, amb) \<in> set (base_texts s p L) \<longleftrightarrow>
     p - padding \<le> i \<and> i < p + L + padding \<and> 0 \<le> i \<and> i < int (length s)
     \<and> c = s ! nat i \<and> (amb \<longleftrightarrow> c \<notin> {CHR ''A'', CHR ''C'', CHR ''G'', CHR ''T''})"
  by (auto simp: base_texts_def Let_def)

lemma plot_trace_section_texts:
  "plot_trace_section read_abi f p L orientation q = Inr fig \<Longrightarrow> read_abi f = Inr r \<Longrightarrow>
     texts fig = base_texts (seq r) p L"
  by (auto simp: plot_trace_section_def Let_def
      split: sum.splits option.splits if_splits prod.splits)

text \<open>
  On a trace that has at least as many samples per channel as called bases, the four
  channels being of one length, \<open>plot_trace_section\<close> returns a figure for every match
  position of the sequence: the window is then not empty.
\<close>

lemma sample_window_nonempty:
  assumes "1 \<le> N" and "N \<le> M" and "0 \<le> p" and "p < int N" and "0 \<le> L"
    and "sample_window M N p L = (start_point, end_point)"
  shows "0 \<le> start_point \<and> start_point < end_point \<and> end_point \<le> int M"
proof -
  define r where "r = real M / real N"
  define a where "a = real_of_int (p - padding) * r"
  define b where "b = real_of_int (p + L + padding) * r"
  have r: "1 \<le> r"
    using assms(1,2) by (simp add: r_def)
  have s: "start_point = max 0 (py_int a)" and e: "end_point = min (int M) (py_int b)"
    using assms(6) by (simp_all add: sample_window_def Let_def a_def b_def r_def)
  have "20 * 1 \<le> real_of_int (p + L + padding) * r"
    using r assms(3,5) by (intro mult_mono) (simp_all add: padding_def)
  then have b20: "20 \<le> b"
    by (simp add: b_def)
  then have pb: "20 \<le> py_int b"
    by (simp add: py_int_def le_floor_iff)
  have "b - a = real_of_int (L + 40) * r"
    by (simp add: a_def b_def padding_def algebra_simps)
  moreover have "40 * 1 \<le> real_of_int (L + 40) * r"
    using r assms(5) by (intro mult_mono) simp_all
  ultimately have gap: "a + 40 \<le> b"
    by simp
  have ab: "py_int a < py_int b"
  proof (cases "0 \<le> a")
    case True
    have "\<lfloor>a\<rfloor> + 40 = \<lfloor>a + 40\<rfloor>"
      by simp
    also have "\<dots> \<le> \<lfloor>b\<rfloor>"
      using gap by (rule floor_mono)
    finally have "\<lfloor>a\<rfloor> < \<lfloor>b\<rfloor>"
      by simp
    with True b20 show ?thesis
      by (simp add: py_int_def)
  next
    case False
    then have "py_int a \<le> 0"
      by (simp add: py_int_def ceiling_le_iff)
    with pb show ?thesis
      by linarith
  qed
  have "real_of_int (p - padding) < real N"
    using assms(4) by (simp add: padding_def)
  then have "a < real N * r"
    unfolding a_def using r by simp
  also have "real N * r = real M"
    using assms(1) by (simp add: r_def)
  finally have "a < real M" .
  then have aM: "py_int a < int M"
    using assms(1,2) by (auto simp: py_int_def floor_less_iff ceiling_less_iff)
  from ab aM pb s e assms(1,2) show ?thesis
    by simp
qed

lemma py_slice_inside:
  assumes "0 \<le> i" and "i < j" and "j \<le> int (length xs)"
  shows "int (length (py_slice xs i j)) = j - i \<and> py_slice xs i j \<noteq> []"
proof -
  from assms have "py_slice xs i j = take (nat (j - i)) (drop (nat i) xs)"
    by (simp add: py_slice_def Let_def)
  then have "length (py_slice xs i j) = min (length xs - nat i) (nat (j - i))"
    by simp
  also from assms have "\<dots> = nat (j - i)"
    by linarith
  finally have len: "length (py_slice xs i j) = nat (j - i)" .
  with assms have "0 < length (py_slice xs i j)"
    by simp
  then have "py_slice xs i j \<noteq> []"
    by auto
  moreover from len assms have "int (length (py_slice xs i j)) = j - i"
    by simp
  ultimately show ?thesis
    by (rule conjI [rotated])
qed

lemma plot_trace_section_returns:
  assumes "read_abi f = Inr r"
    and "abif_raw r ''DATA9'' = Some a" and "abif_raw r ''DATA10'' = Some c"
    and "abif_raw r ''DATA11'' = Some g" and "abif_raw r ''DATA12'' = Some t"
    and "length c = length a" and "length g = length a" and "length t = length a"
    and "1 \<le> length (seq r)" and "length (seq r) \<le> length a"
    and "0 \<le> p" and "p < int (length (seq r))" and "0 \<le> L"
  shows "\<exists>fig. plot_trace_section read_abi f p L orientation q = Inr fig"
proof -
  obtain s e where w: "sample_window (length a) (length (seq r)) p L = (s, e)"
    by (cases "sample_window (length a) (length (seq r)) p L")
  from sample_window_nonempty [OF assms(9,10,11,12,13) w]
  have b: "0 \<le> s" "s < e" "e \<le> int (length a)"
    by simp_all
  have sl: "int (length (py_slice x s e)) = e - s \<and> py_slice x s e \<noteq> []"
    if "length x = length a" for x :: "int list"
    using py_slice_inside [of s e x] b that by simp
  from assms(9) have "seq r \<noteq> []"
    by auto
  with sl [of a] sl [of c] sl [of g] sl [of t] assms b w show ?thesis
    by (simp add: plot_trace_section_def Let_def)
qed

lemma example_figure:
  "plot_trace_section example_reader ''/data/run1.ab1'' 1 2 ''forward'' ''NG'' =
     Inr \<lparr> plotted = [example_trace, example_trace, example_trace, example_trace],
           axvspan = (1, 3),
           max_height = 8,
           texts = [(0, CHR ''A'', False), (1, CHR ''N'', True),
                    (2, CHR ''G'', False), (3, CHR ''T'', False)] \<rparr>"
  by code_simp

text \<open>
  C4. When \<open>plot_trace_section\<close> builds a figure for the match at \<open>p\<close> of a query of length
  \<open>L\<close>, the base letters it writes are exactly the triples \<open>(i, seq[i], purple)\<close> for the
  integers \<open>i\<close> of the padded window \<open>p - 20 \<le> i < p + L + 20\<close> that are positions of the
  sequence, \<open>0 \<le> i < len(seq)\<close>; and a letter is written in purple if and only if it is
  not one of A, C, G, T.
\<close>

theorem annotations_of_figure:
  "plot_trace_section read_abi f p L orientation q = Inr fig \<Longrightarrow> read_abi f = Inr r \<Longrightarrow>
     ((i, c, amb) \<in> set (texts fig) \<longleftrightarrow>
        p - 20 \<le> i \<and> i < p + L + 20 \<and> 0 \<le> i \<and> i < int (length (seq r))
        \<and> c = seq r ! nat i
        \<and> (amb \<longleftrightarrow> c \<notin> {CHR ''A'', CHR ''C'', CHR ''G'', CHR ''T''}))"
  using plot_trace_section_texts [of read_abi f p L orientation q fig r]
    base_texts_iff [of i c amb "seq r" p L]
  by (simp add: padding_def)

theorem annotations_of_figure_witness:
  "(\<exists>fig. plot_trace_section example_reader ''/data/run1.ab1'' 1 2 ''forward'' ''NG'' = Inr fig
          \<and> (1, CHR ''N'', True) \<in> set (texts fig)
          \<and> (2, CHR ''G'', False) \<in> set (texts fig)
          \<and> (2, CHR ''G'', True) \<notin> set (texts fig))
   \<and> example_reader ''/data/run1.ab1'' = Inr example_record"
proof -
  have r: "example_reader ''/data/run1.ab1'' = Inr example_record"
    by (simp add: example_reader_def)
  have s: "seq example_record = ''ANGT''"
    by (simp add: example_record_def)
  note t = annotations_of_figure [OF example_figure r]
  from t [of 1 "CHR ''N''" True] t [of 2 "CHR ''G''" False] t [of 2 "CHR ''G''" True]
    example_figure r s
  show ?thesis
    by simp
qed





subsection \<open>The file locator\<close>

lemma os_walk_scandir:
  "os_walk d n =
     (case scandir (Some n) of
        Inl e \<Rightarrow> []
      | Inr es \<Rightarrow>
          (d, map fst (filter (\<lambda>(name, n). is_dir n) es),
              map fst (filter (\<lambda>(name, n). \<not> is_dir n) es))
          # concat (map (\<lambda>(name, n). os_walk (os_path_join d name) n)
                        (filter (\<lambda>(name, n). is_dir n) es)))"
  by (cases n) (simp_all add: scandir_def)

lemma walk_scandir_error: "scandir (fs d) = Inl e \<Longrightarrow> walk fs d = []"
  by (auto simp: scandir_def walk_def split: option.splits node.splits)

lemma is_dir_iff: "is_dir n \<longleftrightarrow> n \<noteq> File"
  by (cases n) (simp_all add: is_dir_def)

lemma lower_append: "lower (a @ b) = lower a @ lower b"
  by (simp add: lower_def)

lemma length_lower: "length (lower s) = length s"
  by (simp add: lower_def)

lemma endswith_iff: "endswith s p \<longleftrightarrow> (\<exists>stem. s = stem @ p)"
proof
  assume "endswith s p"
  then have "s = take (length s - length p) s @ p"
    by (metis append_take_drop_id endswith_def)
  then show "\<exists>stem. s = stem @ p" ..
next
  assume "\<exists>stem. s = stem @ p"
  then show "endswith s p"
    by (auto simp: endswith_def)
qed

lemma has_ab1_extension_iff: "has_ab1_extension name \<longleftrightarrow> endswith (lower name) ''.ab1''"
proof
  assume "has_ab1_extension name"
  then obtain stem ext where "name = stem @ ext" and "lower ext = ''.ab1''"
    by (auto simp: has_ab1_extension_def)
  then have "lower name = lower stem @ ''.ab1''"
    by (simp add: lower_append)
  then show "endswith (lower name) ''.ab1''"
    unfolding endswith_iff by blast
next
  assume h: "endswith (lower name) ''.ab1''"
  define k where "k = length (lower name) - length ''.ab1''"
  from h have d: "drop k (lower name) = ''.ab1''"
    unfolding endswith_def k_def by blast
  have "name = take k name @ drop k name"
    by simp
  moreover have "lower (drop k name) = ''.ab1''"
    using d by (simp add: lower_def drop_map)
  ultimately show "has_ab1_extension name"
    unfolding has_ab1_extension_def by blast
qed

lemma ab1_paths_Cons:
  "ab1_paths ((d, ds, files) # ts) =
     map (os_path_join d) (filter (\<lambda>file. endswith (lower file) ''.ab1'') files) @ ab1_paths ts"
  by (simp add: ab1_paths_def)

lemma ab1_paths_concat: "ab1_paths (concat tss) = concat (map ab1_paths tss)"
  by (induction tss) (simp_all add: ab1_paths_def)

lemma file_below_Dir:
  "file_below d (Dir es) p name \<longleftrightarrow>
     ((name, File) \<in> set es \<and> p = os_path_join d name)
     \<or> (\<exists>sub n. (sub, n) \<in> set es \<and> file_below (os_path_join d sub) n p name)"
  by (auto elim: file_below.cases intro: file_below.intros)

lemma file_below_File: "\<not> file_below d File p name"
  by (auto elim: file_below.cases)

lemma file_below_Unreadable: "\<not> file_below d Unreadable p name"
  by (auto elim: file_below.cases)

lemma set_ab1_paths_os_walk:
  "set (ab1_paths (os_walk d n)) =
     {p. \<exists>name. file_below d n p name \<and> endswith (lower name) ''.ab1''}"
proof (induction d n rule: os_walk.induct)
  case (1 d es)
  have sub: "set (ab1_paths (os_walk (os_path_join d sub) n)) =
      {p. \<exists>name. file_below (os_path_join d sub) n p name \<and> endswith (lower name) ''.ab1''}"
    if "(sub, n) \<in> set es" for sub n
  proof (cases "is_dir n")
    case True
    with that "1.IH" [of "(sub, n)" sub n] show ?thesis
      by simp
  next
    case False
    then have "n = File"
      by (simp add: is_dir_iff)
    then show ?thesis
      by (simp add: ab1_paths_def file_below_File)
  qed
  have files: "set (map fst (filter (\<lambda>(name, n). \<not> is_dir n) es)) = {name. (name, File) \<in> set es}"
    by (force simp: is_dir_iff)
  have walked: "is_dir n" if "p \<in> set (ab1_paths (os_walk dn n))" for p dn n
    using that by (cases n) (simp_all add: ab1_paths_def is_dir_def)
  show ?case
  proof (rule set_eqI)
    fix p
    have "p \<in> set (ab1_paths (os_walk d (Dir es))) \<longleftrightarrow>
        (\<exists>name. (name, File) \<in> set es \<and> endswith (lower name) ''.ab1'' \<and> p = os_path_join d name)
        \<or> (\<exists>sub n. (sub, n) \<in> set es \<and> is_dir n
              \<and> p \<in> set (ab1_paths (os_walk (os_path_join d sub) n)))"
      using files by (auto simp: ab1_paths_Cons ab1_paths_concat)
    also have "\<dots> \<longleftrightarrow>
        (\<exists>name. (name, File) \<in> set es \<and> endswith (lower name) ''.ab1'' \<and> p = os_path_join d name)
        \<or> (\<exists>sub n. (sub, n) \<in> set es \<and> p \<in> set (ab1_paths (os_walk (os_path_join d sub) n)))"
      using walked by blast
    also have "\<dots> \<longleftrightarrow>
        (\<exists>name. (name, File) \<in> set es \<and> endswith (lower name) ''.ab1'' \<and> p = os_path_join d name)
        \<or> (\<exists>sub n. (sub, n) \<in> set es
              \<and> (\<exists>name. file_below (os_path_join d sub) n p name \<and> endswith (lower name) ''.ab1''))"
      using sub by blast
    also have "\<dots> \<longleftrightarrow> (\<exists>name. file_below d (Dir es) p name \<and> endswith (lower name) ''.ab1'')"
      by (subst file_below_Dir) blast
    finally show "p \<in> set (ab1_paths (os_walk d (Dir es))) \<longleftrightarrow>
        p \<in> {p. \<exists>name. file_below d (Dir es) p name \<and> endswith (lower name) ''.ab1''}"
      by simp
  qed
next
  case (2 d)
  then show ?case
    by (simp add: ab1_paths_def file_below_File)
next
  case (3 d)
  then show ?case
    by (simp add: ab1_paths_def file_below_Unreadable)
qed

text \<open>
  C8. When the start path is an existing directory, \<open>find_ab1_files\<close> returns a list whose
  elements are exactly the paths of the files found anywhere in the tree below it whose
  name ends in \<open>.ab1\<close>, letter case ignored.
\<close>

theorem find_ab1_files_exact:
  "fs D = Some (Dir es) \<Longrightarrow>
     (\<exists>paths. find_ab1_files fs D = Inr paths
        \<and> set paths = {p. \<exists>name. file_below D (Dir es) p name \<and> has_ab1_extension name})"
  using set_ab1_paths_os_walk [of D "Dir es"]
  by (simp add: find_ab1_files_def walk_def has_ab1_extension_iff del: os_walk.simps)


lemma example_listing:
  "find_ab1_files example_fs ''/data'' =
     Inr [''/data/run1.ab1'', ''/data/bad.AB1'', ''/data/sub/run2.Ab1'']"
  by code_simp

theorem find_ab1_files_exact_witness:
  "example_fs ''/data'' = Some example_tree
   \<and> find_ab1_files example_fs ''/data'' =
       Inr [''/data/run1.ab1'', ''/data/bad.AB1'', ''/data/sub/run2.Ab1'']
   \<and> {p. \<exists>name. file_below ''/data'' example_tree p name \<and> has_ab1_extension name} =
       {''/data/run1.ab1'', ''/data/bad.AB1'', ''/data/sub/run2.Ab1''}"
proof -
  have a: "example_fs ''/data'' = Some example_tree"
    by (simp add: example_fs_def)
  from find_ab1_files_exact [of example_fs "''/data''"] a example_listing show ?thesis
    by (auto simp: example_tree_def)
qed

lemma is_dir_without_unreadable: "is_dir (without_unreadable n) = is_dir n"
  by (cases n) (simp_all add: is_dir_def)

lemma without_unreadable_File: "without_unreadable n = File \<longleftrightarrow> n = File"
  by (cases n) simp_all

lemma ab1_paths_append: "ab1_paths (ts @ us) = ab1_paths ts @ ab1_paths us"
  by (simp add: ab1_paths_def)

lemma files_without_unreadable:
  "map fst (filter (\<lambda>(name, n). \<not> is_dir n)
      (map (\<lambda>(name, n). (name, without_unreadable n))
           (filter (\<lambda>(name, n). n \<noteq> Unreadable) es)))
   = map fst (filter (\<lambda>(name, n). \<not> is_dir n) es)"
  by (induction es) (auto simp: is_dir_iff without_unreadable_File)

lemma subdirs_without_unreadable:
  assumes "\<And>name n. (name, n) \<in> set es \<Longrightarrow> is_dir n \<Longrightarrow>
             ab1_paths (os_walk (os_path_join d name) (without_unreadable n))
             = ab1_paths (os_walk (os_path_join d name) n)"
  shows "ab1_paths (concat (map (\<lambda>(name, n). os_walk (os_path_join d name) n)
            (filter (\<lambda>(name, n). is_dir n)
               (map (\<lambda>(name, n). (name, without_unreadable n))
                    (filter (\<lambda>(name, n). n \<noteq> Unreadable) es)))))
         = ab1_paths (concat (map (\<lambda>(name, n). os_walk (os_path_join d name) n)
            (filter (\<lambda>(name, n). is_dir n) es)))"
  using assms
proof (induction es)
  case Nil
  then show ?case
    by simp
next
  case (Cons e es)
  obtain name n where e: "e = (name, n)"
    by (cases e)
  from Cons.prems have rest: "\<And>name n. (name, n) \<in> set es \<Longrightarrow> is_dir n \<Longrightarrow>
      ab1_paths (os_walk (os_path_join d name) (without_unreadable n))
      = ab1_paths (os_walk (os_path_join d name) n)"
    by simp
  from Cons.prems e have this_one: "is_dir n \<Longrightarrow>
      ab1_paths (os_walk (os_path_join d name) (without_unreadable n))
      = ab1_paths (os_walk (os_path_join d name) n)"
    by simp
  show ?case
    using Cons.IH [OF rest] this_one e
    by (cases n) (simp_all add: ab1_paths_append is_dir_def del: os_walk.simps, simp add: ab1_paths_def)
qed

lemma ab1_paths_without_unreadable:
  "ab1_paths (os_walk d (without_unreadable n)) = ab1_paths (os_walk d n)"
proof (induction d n rule: os_walk.induct)
  case (1 d es)
  have "ab1_paths (os_walk (os_path_join d name) (without_unreadable n))
      = ab1_paths (os_walk (os_path_join d name) n)"
    if "(name, n) \<in> set es" and "is_dir n" for name n
    using that "1.IH" [of "(name, n)" name n] by simp
  then show ?case
    using subdirs_without_unreadable [of es d] files_without_unreadable [of es]
    by (simp add: ab1_paths_Cons)
qed simp_all

text \<open>
  C6, as the code has it. \<open>find_ab1_files\<close> never fails. When the start path does not exist
  or is not a directory it returns the empty list. A directory that cannot be listed is
  skipped: the result is the one for the tree without such directories.
\<close>

theorem find_ab1_files_never_fails:
  "(fs p = None \<or> fs p = Some File \<longrightarrow> find_ab1_files fs p = Inr [])
   \<and> (\<exists>paths. find_ab1_files fs p = Inr paths)
   \<and> (\<forall>n. fs p = Some n \<longrightarrow>
         find_ab1_files fs p = find_ab1_files (fs(p \<mapsto> without_unreadable n)) p)"
proof -
  have "ab1_paths [] = []"
    by (simp add: ab1_paths_def)
  then have "fs p = None \<or> fs p = Some File \<longrightarrow> find_ab1_files fs p = Inr []"
    by (auto simp: find_ab1_files_def walk_def)
  moreover have "\<exists>paths. find_ab1_files fs p = Inr paths"
    by (simp add: find_ab1_files_def)
  moreover have "find_ab1_files fs p = find_ab1_files (fs(p \<mapsto> without_unreadable n)) p"
    if "fs p = Some n" for n
    using that
    by (simp add: find_ab1_files_def walk_def ab1_paths_without_unreadable del: os_walk.simps)
  ultimately show ?thesis
    by blast
qed

theorem find_ab1_files_never_fails_witness:
  "example_fs ''/data/missing'' = None
   \<and> find_ab1_files example_fs ''/data/missing'' = Inr []
   \<and> example_fs ''/data'' = Some example_tree
   \<and> find_ab1_files (example_fs(''/data'' \<mapsto> without_unreadable example_tree)) ''/data''
       = Inr [''/data/run1.ab1'', ''/data/bad.AB1'', ''/data/sub/run2.Ab1'']"
proof -
  have a: "example_fs ''/data/missing'' = None"
    by (simp add: example_fs_def)
  have b: "example_fs ''/data'' = Some example_tree"
    by (simp add: example_fs_def)
  from find_ab1_files_never_fails [of example_fs "''/data/missing''"]
    find_ab1_files_never_fails [of example_fs "''/data''"] a b example_listing
  show ?thesis
    by simp
qed

text \<open>
  C6, as the spec has it, asks for a failure when the start path does not exist or is not a
  directory. On a path where nothing is found, and on the path of a plain file, the
  function returns the empty list.
\<close>

theorem missing_root_counterexample:
  "Map.empty ''/data/missing'' = None
   \<and> find_ab1_files Map.empty ''/data/missing'' = Inr []
   \<and> example_fs ''/data/notes.txt'' = Some File
   \<and> find_ab1_files example_fs ''/data/notes.txt'' = Inr []"
  by (simp add: find_ab1_files_def walk_def ab1_paths_def example_fs_def)

subsection \<open>The search loop\<close>





end
